theory Spec2Isabelle
  imports Complex_Main
begin

section \<open>Python values used by the arbitrage engine\<close>

text \<open>
  The engine (\<^verbatim>\<open>src/utils/arbitrage.py\<close>) works on the JSON payload of the odds provider.
  A Python \<^verbatim>\<open>float\<close> is either finite or one of the three special values; finite floats
  are idealised as real numbers, so IEEE rounding of the arithmetic is not part of this
  model. \<^verbatim>\<open>isfinite\<close> holds of \<open>Finite r\<close> alone, so only finite values ever enter a
  snapshot.
\<close>

datatype pyfloat = Finite real | PosInf | NegInf | NaN

text \<open>
  The value stored under \<^verbatim>\<open>"price"\<close>: \<open>Convertible f\<close> is any value on which the builtin
  \<^verbatim>\<open>float()\<close> returns \<open>f\<close> (a float, an int, a bool, a numeric string), \<open>Unconvertible\<close>
  any value on which it raises (a non-numeric string, a list, a dict).
\<close>

datatype raw_price = Convertible pyfloat | Unconvertible

definition py_float :: "raw_price \<Rightarrow> pyfloat option" where
  "py_float v = (case v of Convertible f \<Rightarrow> Some f | Unconvertible \<Rightarrow> None)"

datatype error = ZeroDivisionError

text \<open>
  \<^verbatim>\<open>str.lower()\<close> on the ASCII letters; every other character is left as it is. Strings
  are byte strings here, so the letters beyond ASCII that Python also lowers are outside
  this model; the general properties below hold for any lower-casing function, only the
  evaluations of the examples use this one.
\<close>

definition lower_char :: "char \<Rightarrow> char" where
  "lower_char c =
     (let n = (of_char c :: nat) in if 65 \<le> n \<and> n \<le> 90 then char_of (n + 32) else c)"

definition lower :: "string \<Rightarrow> string" where
  "lower s = map lower_char s"

text \<open>\<^verbatim>\<open>a or b\<close> on optional strings: \<^verbatim>\<open>None\<close> and the empty string are falsy.\<close>

definition str_or :: "string option \<Rightarrow> string option \<Rightarrow> string option" where
  "str_or a b = (case a of None \<Rightarrow> b | Some s \<Rightarrow> if s = [] then b else Some s)"

text \<open>
  A Python \<^verbatim>\<open>dict\<close> keeps its keys in insertion order; assigning to a key that is present
  replaces its value in place, assigning to a new key appends it.
\<close>

type_synonym ('k, 'v) dict = "('k \<times> 'v) list"

fun dict_set :: "('k, 'v) dict \<Rightarrow> 'k \<Rightarrow> 'v \<Rightarrow> ('k, 'v) dict" where
  "dict_set [] k v = [(k, v)]"
| "dict_set ((k', v') # d) k v =
     (if k' = k then (k, v) # d else (k', v') # dict_set d k v)"

text \<open>The builtin \<^verbatim>\<open>sum\<close>: starts from 0 and adds from left to right.\<close>

definition py_sum :: "real list \<Rightarrow> real" where
  "py_sum xs = foldl (+) 0 xs"

text \<open>
  \<^verbatim>\<open>round(x, n)\<close>: to the nearest multiple of \<open>10 ^ -n\<close>, a tie going to the even
  neighbour.
\<close>

definition round_half_even :: "real \<Rightarrow> int" where
  "round_half_even y =
     (let f = \<lfloor>y\<rfloor>; d = y - of_int f
      in if d < 1 / 2 then f else if 1 / 2 < d then f + 1 else if even f then f else f + 1)"

definition py_round :: "real \<Rightarrow> nat \<Rightarrow> real" where
  "py_round x n = of_int (round_half_even (x * 10 ^ n)) / 10 ^ n"

section \<open>The event payload\<close>

record outcome =
  out_name :: "string option"
  out_price :: "raw_price option"

record market =
  market_key :: "string option"
  market_outcomes :: "outcome list"

record bookmaker =
  bm_title :: "string option"
  bm_key :: "string option"
  bm_markets :: "market list"

record event =
  ev_id :: "string option"
  ev_sport_title :: "string option"
  ev_commence_time :: "string option"
  ev_home_team :: "string option"
  ev_away_team :: "string option"
  ev_bookmakers :: "bookmaker list option"

record arb =
  arb_event_id :: "string option"
  arb_sport_title :: "string option"
  arb_commence_time :: "string option"
  arb_home :: "string option"
  arb_away :: "string option"
  arb_best_odds :: "(string, real) dict"
  arb_best_books :: "(string, string) dict"
  arb_edge_pct :: real
  arb_stakes_100 :: "(string, real) dict"

section \<open>Best-price selection\<close>

text \<open>
  \<^verbatim>\<open>_best_odds_by_outcome\<close>: three nested loops over bookmakers, markets and outcomes
  that update the two dictionaries \<^verbatim>\<open>best\<close> and \<^verbatim>\<open>source\<close>. The state of the loops is
  the pair of dictionaries; every \<^verbatim>\<open>continue\<close> returns the state unchanged. The test
  \<^verbatim>\<open>not isfinite(price) or price <= 1.0\<close> is the case distinction on the float.
\<close>

type_synonym snapshot = "(string, real) dict \<times> (string, string) dict"

text \<open>\<^verbatim>\<open>bm.get("title") or bm.get("key") or ""\<close>, and the name the loop uses for the bookmaker.\<close>

definition bm_identifier :: "bookmaker \<Rightarrow> string" where
  "bm_identifier bm =
     (case str_or (str_or (bm_title bm) (bm_key bm)) (Some []) of None \<Rightarrow> [] | Some s \<Rightarrow> s)"

definition bm_name :: "bookmaker \<Rightarrow> string" where
  "bm_name bm = lower (bm_identifier bm)"

definition outcome_step :: "string \<Rightarrow> snapshot \<Rightarrow> outcome \<Rightarrow> snapshot" where
  "outcome_step name st out =
     (case out_name out of
        None \<Rightarrow> st
      | Some outcome_name \<Rightarrow>
          (case out_price out of
             None \<Rightarrow> st
           | Some raw \<Rightarrow>
               (case py_float raw of
                  None \<Rightarrow> st
                | Some f \<Rightarrow>
                    (case f of
                       Finite price \<Rightarrow>
                         if price \<le> 1 then st
                         else if map_of (fst st) outcome_name = None
                                 \<or> price > the (map_of (fst st) outcome_name)
                         then (dict_set (fst st) outcome_name price,
                               dict_set (snd st) outcome_name name)
                         else st
                     | PosInf \<Rightarrow> st
                     | NegInf \<Rightarrow> st
                     | NaN \<Rightarrow> st))))"

definition market_step :: "string \<Rightarrow> snapshot \<Rightarrow> market \<Rightarrow> snapshot" where
  "market_step name st m =
     (if market_key m \<noteq> Some ''h2h'' then st
      else foldl (outcome_step name) st (market_outcomes m))"

definition bookmaker_step :: "string set \<Rightarrow> snapshot \<Rightarrow> bookmaker \<Rightarrow> snapshot" where
  "bookmaker_step bookmaker_whitelist st bm =
     (let name = bm_name bm
      in if bookmaker_whitelist \<noteq> {} \<and> name \<notin> bookmaker_whitelist then st
         else foldl (market_step name) st (bm_markets bm))"

definition best_odds_by_outcome :: "bookmaker list \<Rightarrow> string set \<Rightarrow> snapshot" where
  "best_odds_by_outcome bookmakers bookmaker_whitelist =
     foldl (bookmaker_step bookmaker_whitelist) ([], []) bookmakers"

section \<open>Edge and stakes\<close>

text \<open>
  \<^verbatim>\<open>_arb_edge\<close> and \<^verbatim>\<open>_stakes_for_edge\<close> in exact arithmetic: the values that the doubles
  of the code approximate (the same functions with every operation rounded follow further
  down). \<^verbatim>\<open>1.0 / o\<close> raises \<^verbatim>\<open>ZeroDivisionError\<close> when \<open>o\<close> is zero; the comprehension
  stops at the first such value.
\<close>

fun inv_values :: "real list \<Rightarrow> error + real list" where
  "inv_values [] = Inr []"
| "inv_values (v # vs) =
     (if v = 0 then Inl ZeroDivisionError
      else (case inv_values vs of Inl e \<Rightarrow> Inl e | Inr is \<Rightarrow> Inr (1 / v # is)))"

definition arb_edge :: "(string, real) dict \<Rightarrow> error + real" where
  "arb_edge best =
     (case inv_values (map snd best) of
        Inl e \<Rightarrow> Inl e
      | Inr invs \<Rightarrow> Inr ((1 - py_sum invs) * 100))"

definition stakes_for_edge :: "(string, real) dict \<Rightarrow> real \<Rightarrow> error + (string, real) dict" where
  "stakes_for_edge best bankroll =
     (case inv_values (map snd best) of
        Inl e \<Rightarrow> Inl e
      | Inr invs \<Rightarrow>
          (let inv = zip (map fst best) invs;
               inv_sum = py_sum (map snd inv)
           in if inv = [] then Inr []
              else if inv_sum = 0 then Inl ZeroDivisionError
              else Inr (map (\<lambda>(k, inv_v). (k, bankroll * inv_v / inv_sum)) inv)))"

section \<open>The engine\<close>

text \<open>
  \<^verbatim>\<open>find_arbs_for_event(event, min_edge_pct=0.25, bookmaker_whitelist=None)\<close>: an argument
  that the caller leaves out is \<open>None\<close> here and takes the default of the signature.
\<close>

definition min_edge_pct_of :: "pyfloat option \<Rightarrow> pyfloat" where
  "min_edge_pct_of min_edge_pct_arg =
     (case min_edge_pct_arg of None \<Rightarrow> Finite (25 / 100) | Some m \<Rightarrow> m)"

text \<open>
  \<^verbatim>\<open>x <= t\<close> and \<^verbatim>\<open>t < x\<close> in Python for a finite float \<open>x\<close> and any float \<open>t\<close>: every
  comparison with NaN is false.
\<close>

definition float_le :: "real \<Rightarrow> pyfloat \<Rightarrow> bool" where
  "float_le x t =
     (case t of Finite m \<Rightarrow> x \<le> m | PosInf \<Rightarrow> True | NegInf \<Rightarrow> False | NaN \<Rightarrow> False)"

definition float_gt :: "real \<Rightarrow> pyfloat \<Rightarrow> bool" where
  "float_gt x t =
     (case t of Finite m \<Rightarrow> m < x | PosInf \<Rightarrow> False | NegInf \<Rightarrow> True | NaN \<Rightarrow> False)"

text \<open>\<^verbatim>\<open>bookmaker_whitelist or set()\<close> and \<^verbatim>\<open>event.get("bookmakers") or []\<close>.\<close>

definition whitelist_of :: "string set option \<Rightarrow> string set" where
  "whitelist_of bookmaker_whitelist_arg = (case bookmaker_whitelist_arg of None \<Rightarrow> {} | Some w \<Rightarrow> w)"

definition bookmakers_of :: "event \<Rightarrow> bookmaker list" where
  "bookmakers_of event = (case ev_bookmakers event of None \<Rightarrow> [] | Some b \<Rightarrow> b)"

definition find_arbs_for_event ::
  "event \<Rightarrow> pyfloat option \<Rightarrow> string set option \<Rightarrow> error + arb list" where
  "find_arbs_for_event event min_edge_pct_arg bookmaker_whitelist_arg =
     (let min_edge_pct = min_edge_pct_of min_edge_pct_arg;
          bookmaker_whitelist = whitelist_of bookmaker_whitelist_arg;
          bms = bookmakers_of event
      in if bms = [] then Inr []
         else
           (let bs = best_odds_by_outcome bms bookmaker_whitelist;
                best = fst bs;
                source = snd bs
            in if length best \<noteq> 2 \<and> length best \<noteq> 3 then Inr []
               else
                 (case arb_edge best of
                    Inl e \<Rightarrow> Inl e
                  | Inr edge \<Rightarrow>
                      if float_le edge min_edge_pct then Inr []
                      else
                        (case stakes_for_edge best 100 of
                           Inl e \<Rightarrow> Inl e
                         | Inr stakes \<Rightarrow>
                             Inr [\<lparr>arb_event_id = ev_id event,
                                   arb_sport_title = ev_sport_title event,
                                   arb_commence_time = ev_commence_time event,
                                   arb_home = ev_home_team event,
                                   arb_away = ev_away_team event,
                                   arb_best_odds = best,
                                   arb_best_books = source,
                                   arb_edge_pct = py_round edge 4,
                                   arb_stakes_100 = map (\<lambda>(k, v). (k, py_round v 2)) stakes\<rparr>]))))"

section \<open>The driver's configuration\<close>

text \<open>
  \<^verbatim>\<open>MIN_EDGE_PCT = float(os.getenv("MIN_EDGE_PCT", "0.5"))\<close> in \<^verbatim>\<open>src/main.py\<close>: the
  argument is the value of the environment variable as a float, \<open>None\<close> when the variable
  is not set. \<^verbatim>\<open>scan_once\<close> passes the configured threshold and allow-list to the engine
  for every event.
\<close>

definition MIN_EDGE_PCT :: "pyfloat option \<Rightarrow> pyfloat" where
  "MIN_EDGE_PCT env = (case env of None \<Rightarrow> Finite (5 / 10) | Some v \<Rightarrow> v)"

definition scan_event :: "pyfloat option \<Rightarrow> string set \<Rightarrow> event \<Rightarrow> error + arb list" where
  "scan_event env whitelist ev = find_arbs_for_event ev (Some (MIN_EDGE_PCT env)) (Some whitelist)"

section \<open>Qualifying listings\<close>

text \<open>
  The specification speaks of the price listings that remain after the filters of the
  selection: a listing of an allowed bookmaker, in an \<^verbatim>\<open>h2h\<close> market, with an outcome
  label and a price that parses to a finite number above 1. The definitions below list
  them in the order the loops visit them, as triples of outcome label, price and
  bookmaker name, and say what the best price of a label and its first bookmaker are.
\<close>

type_synonym listing = "string \<times> real \<times> string"

definition qualifying_outcome :: "string \<Rightarrow> outcome \<Rightarrow> listing option" where
  "qualifying_outcome name out =
     (case out_name out of
        None \<Rightarrow> None
      | Some label \<Rightarrow>
          (case out_price out of
             Some (Convertible (Finite p)) \<Rightarrow> if 1 < p then Some (label, p, name) else None
           | _ \<Rightarrow> None))"

definition listings_of_market :: "string \<Rightarrow> market \<Rightarrow> listing list" where
  "listings_of_market name m =
     (if market_key m = Some ''h2h''
      then List.map_filter (qualifying_outcome name) (market_outcomes m) else [])"

definition allowed :: "string set \<Rightarrow> bookmaker \<Rightarrow> bool" where
  "allowed whitelist bm = (whitelist = {} \<or> bm_name bm \<in> whitelist)"

definition listings_of_bookmaker :: "bookmaker \<Rightarrow> listing list" where
  "listings_of_bookmaker bm = concat (map (listings_of_market (bm_name bm)) (bm_markets bm))"

definition qualifying_listings :: "bookmaker list \<Rightarrow> string set \<Rightarrow> listing list" where
  "qualifying_listings bms whitelist =
     concat (map listings_of_bookmaker (filter (allowed whitelist) bms))"

definition record_listing :: "snapshot \<Rightarrow> listing \<Rightarrow> snapshot" where
  "record_listing st l =
     (case l of (label, p, name) \<Rightarrow>
        if map_of (fst st) label = None \<or> p > the (map_of (fst st) label)
        then (dict_set (fst st) label p, dict_set (snd st) label name) else st)"

definition prices_for :: "string \<Rightarrow> listing list \<Rightarrow> real list" where
  "prices_for label ls = map (\<lambda>l. fst (snd l)) (filter (\<lambda>l. fst l = label) ls)"

definition best_price :: "string \<Rightarrow> listing list \<Rightarrow> real option" where
  "best_price label ls =
     (if prices_for label ls = [] then None else Some (Max (set (prices_for label ls))))"

definition first_best_book :: "string \<Rightarrow> listing list \<Rightarrow> string option" where
  "first_best_book label ls =
     map_option (\<lambda>l. snd (snd l))
       (find (\<lambda>l. fst l = label \<and> Some (fst (snd l)) = best_price label ls) ls)"

section \<open>Example events\<close>

definition quote :: "string \<Rightarrow> real \<Rightarrow> outcome" where
  "quote label p = \<lparr>out_name = Some label, out_price = Some (Convertible (Finite p))\<rparr>"

definition h2h_book :: "string \<Rightarrow> outcome list \<Rightarrow> bookmaker" where
  "h2h_book title outs =
     \<lparr>bm_title = Some title, bm_key = None,
      bm_markets = [\<lparr>market_key = Some ''h2h'', market_outcomes = outs\<rparr>]\<rparr>"

definition event_of :: "bookmaker list \<Rightarrow> event" where
  "event_of bms =
     \<lparr>ev_id = Some ''e1'', ev_sport_title = Some ''Tennis'', ev_commence_time = None,
      ev_home_team = None, ev_away_team = None, ev_bookmakers = Some bms\<rparr>"

text \<open>Scenario A of the specification: two books, the best price of each outcome at a different book.\<close>

definition scenario_A :: "bookmaker list" where
  "scenario_A =
     [h2h_book ''X'' [quote ''A'' (21 / 10), quote ''B'' (19 / 10)],
      h2h_book ''Y'' [quote ''A'' 2, quote ''B'' (41 / 20)]]"

text \<open>
  Further events: both prices 2.00 (edge exactly 0); prices 2.00 and 2.02 (edge about 0.495);
  Scenario C of the specification (a three-way market with a negative edge); and an event
  with four outcomes.
\<close>

definition scenario_even :: "bookmaker list" where
  "scenario_even = [h2h_book ''X'' [quote ''A'' 2, quote ''B'' 2]]"

definition scenario_near :: "bookmaker list" where
  "scenario_near = [h2h_book ''X'' [quote ''A'' 2, quote ''B'' (101 / 50)]]"

definition scenario_C :: "bookmaker list" where
  "scenario_C = [h2h_book ''X'' [quote ''1'' 2, quote ''X'' (34 / 10), quote ''2'' (45 / 10)]]"

definition scenario_four :: "bookmaker list" where
  "scenario_four =
     [h2h_book ''X'' [quote ''A'' 5, quote ''B'' 5],
      h2h_book ''Y'' [quote ''C'' 5, quote ''D'' 5]]"

text \<open>
  A price that the selection must skip, in the words of the specification: missing, not
  parsable as a number, not finite, or at most 1.
\<close>

definition invalid_price :: "raw_price option \<Rightarrow> bool" where
  "invalid_price v =
     (case v of
        None \<Rightarrow> True
      | Some Unconvertible \<Rightarrow> True
      | Some (Convertible (Finite q)) \<Rightarrow> q \<le> 1
      | Some (Convertible PosInf) \<Rightarrow> True
      | Some (Convertible NegInf) \<Rightarrow> True
      | Some (Convertible NaN) \<Rightarrow> True)"

text \<open>
  Two books that quote the same best price for outcome A; Scenario D of the specification
  (a price of exactly 1.0, next to prices that are not numbers or not finite); and two
  books for the allow-list.
\<close>

definition scenario_tie :: "bookmaker list" where
  "scenario_tie =
     [h2h_book ''X'' [quote ''A'' (21 / 10), quote ''B'' (19 / 10)],
      h2h_book ''Y'' [quote ''A'' (21 / 10), quote ''B'' (41 / 20)]]"

definition scenario_D :: "bookmaker list" where
  "scenario_D =
     [h2h_book ''X'' [quote ''A'' 1, quote ''B'' (5 / 2)],
      h2h_book ''Y''
        [\<lparr>out_name = Some ''A'', out_price = Some (Convertible NaN)\<rparr>,
         \<lparr>out_name = Some ''A'', out_price = Some Unconvertible\<rparr>,
         \<lparr>out_name = Some ''A'', out_price = Some (Convertible PosInf)\<rparr>,
         quote ''B'' (12 / 5)]]"

definition pinnacle_book :: bookmaker where
  "pinnacle_book = h2h_book ''Pinnacle'' [quote ''A'' (21 / 10), quote ''B'' (41 / 20)]"

definition other_book :: bookmaker where
  "other_book = h2h_book ''Bet365'' [quote ''A'' (5 / 2), quote ''B'' (5 / 2)]"

section \<open>The arithmetic of the code in IEEE doubles\<close>











section \<open>Arithmetic of the edge and the stakes\<close>

lemma foldl_add_sum_list: "foldl (+) (a::real) xs = a + sum_list xs"
  by (induction xs arbitrary: a) (simp_all add: add.assoc)

lemma py_sum_sum_list: "py_sum xs = sum_list xs"
  by (simp add: py_sum_def foldl_add_sum_list)

lemma inv_values_nonzero:
  "\<forall>v\<in>set vs. v \<noteq> 0 \<Longrightarrow> inv_values vs = Inr (map (\<lambda>v. 1 / v) vs)"
  by (induction vs) simp_all

lemma arb_edge_nonzero:
  assumes "\<forall>v\<in>set (map snd best). v \<noteq> 0"
  shows "arb_edge best = Inr ((1 - sum_list (map (\<lambda>v. 1 / v) (map snd best))) * 100)"
  using inv_values_nonzero [OF assms] by (simp add: arb_edge_def py_sum_sum_list)

lemma sum_list_inv_pos:
  "vs \<noteq> [] \<Longrightarrow> \<forall>v\<in>set vs. (0::real) < v \<Longrightarrow> 0 < sum_list (map (\<lambda>v. 1 / v) vs)"
proof (induction vs)
  case Nil
  then show ?case by simp
next
  case (Cons v vs)
  show ?case
  proof (cases "vs = []")
    case True
    with Cons.prems show ?thesis by simp
  next
    case False
    with Cons have "0 < sum_list (map (\<lambda>v. 1 / v) vs)" by simp
    moreover from Cons.prems have "0 < 1 / v" by simp
    ultimately show ?thesis by (simp add: add_pos_pos)
  qed
qed

lemma stakes_for_edge_pos:
  assumes ne: "best \<noteq> []" and pos: "\<forall>v\<in>set (map snd best). 0 < v"
  shows "stakes_for_edge best bankroll =
           Inr (map (\<lambda>(k, v). (k, bankroll * (1 / v) / sum_list (map (\<lambda>v. 1 / v) (map snd best)))) best)"
proof -
  from pos have nz: "\<forall>v\<in>set (map snd best). v \<noteq> 0" by auto
  have iv: "inv_values (map snd best) = Inr (map (\<lambda>v. 1 / v) (map snd best))"
    by (rule inv_values_nonzero [OF nz])
  have z: "map snd (zip (map fst best) (map (\<lambda>v. 1 / v) (map snd best))) = map (\<lambda>v. 1 / v) (map snd best)"
    by simp
  from ne pos have sp: "0 < sum_list (map (\<lambda>v. 1 / v) (map snd best))"
    by (intro sum_list_inv_pos) simp_all
  have m: "map (\<lambda>(k, inv_v). (k, bankroll * inv_v / S)) (zip (map fst best) (map (\<lambda>v. 1 / v) (map snd best)))
         = map (\<lambda>(k, v). (k, bankroll * (1 / v) / S)) best" for S
    by (induction best) auto
  show ?thesis
    unfolding stakes_for_edge_def iv
    using ne sp by (simp add: Let_def py_sum_sum_list z m del: map_map)
qed

lemma sum_list_scaled:
  "sum_list (map (\<lambda>w. b * w / S) xs) = b * sum_list xs / (S::real)"
  by (induction xs) (simp_all add: distrib_left add_divide_distrib)

lemma stakes_payout_total:
  assumes ne: "best \<noteq> []" and pos: "\<forall>v\<in>set (map snd best). 0 < v"
  shows "\<exists>stakes. stakes_for_edge best bankroll = Inr stakes
           \<and> map fst stakes = map fst best
           \<and> (\<forall>i<length best. snd (stakes ! i) * snd (best ! i)
                  = bankroll / sum_list (map (\<lambda>v. 1 / v) (map snd best)))
           \<and> sum_list (map snd stakes) = bankroll"
proof -
  let ?S = "sum_list (map (\<lambda>v. 1 / v) (map snd best))"
  let ?st = "map (\<lambda>(k, v). (k, bankroll * (1 / v) / ?S)) best"
  from ne pos have sp: "0 < ?S"
    by (intro sum_list_inv_pos) simp_all
  have eq: "stakes_for_edge best bankroll = Inr ?st"
    by (rule stakes_for_edge_pos [OF ne pos])
  have keys: "map fst ?st = map fst best"
    by (induction best) auto
  have pay: "snd (?st ! i) * snd (best ! i) = bankroll / ?S" if "i < length best" for i
  proof -
    from that pos have "0 < snd (best ! i)" by simp
    with that show ?thesis by (simp add: case_prod_beta)
  qed
  have "map snd ?st = map (\<lambda>w. bankroll * w / ?S) (map (\<lambda>v. 1 / v) (map snd best))"
    by (induction best) auto
  also have "sum_list \<dots> = bankroll * ?S / ?S"
    by (rule sum_list_scaled)
  finally have tot: "sum_list (map snd ?st) = bankroll"
    using sp by simp
  from eq keys pay tot show ?thesis by blast
qed

section \<open>The loops as one pass over the qualifying listings\<close>

lemma outcome_step_listing:
  "outcome_step name st out =
     (case qualifying_outcome name out of None \<Rightarrow> st | Some l \<Rightarrow> record_listing st l)"
  by (auto simp: outcome_step_def qualifying_outcome_def record_listing_def py_float_def
           split: option.splits raw_price.splits pyfloat.splits)

lemma foldl_outcome_step:
  "foldl (outcome_step name) st outs
     = foldl record_listing st (List.map_filter (qualifying_outcome name) outs)"
  by (induction outs arbitrary: st)
     (simp_all add: List.map_filter_simps outcome_step_listing split: option.splits)

lemma market_step_listings:
  "market_step name st m = foldl record_listing st (listings_of_market name m)"
  by (simp add: market_step_def listings_of_market_def foldl_outcome_step)

lemma foldl_market_step:
  "foldl (market_step name) st ms
     = foldl record_listing st (concat (map (listings_of_market name) ms))"
  by (induction ms arbitrary: st) (simp_all add: market_step_listings)

lemma bookmaker_step_listings:
  "bookmaker_step wl st bm
     = (if allowed wl bm then foldl record_listing st (listings_of_bookmaker bm) else st)"
  by (auto simp: bookmaker_step_def allowed_def listings_of_bookmaker_def foldl_market_step Let_def)

lemma foldl_bookmaker_step:
  "foldl (bookmaker_step wl) st bms = foldl record_listing st (qualifying_listings bms wl)"
  by (induction bms arbitrary: st) (simp_all add: bookmaker_step_listings qualifying_listings_def)

lemma best_odds_by_outcome_listings:
  "best_odds_by_outcome bms wl = foldl record_listing ([], []) (qualifying_listings bms wl)"
  by (simp add: best_odds_by_outcome_def foldl_bookmaker_step)

section \<open>Dictionaries\<close>

lemma map_of_dict_set: "map_of (dict_set d k v) = (map_of d)(k \<mapsto> v)"
  by (induction d) (auto simp: fun_eq_iff)

lemma keys_dict_set:
  "map fst (dict_set d k v) = (if k \<in> set (map fst d) then map fst d else map fst d @ [k])"
  by (induction d) (force simp: image_iff)+

section \<open>Best price and first bookmaker\<close>

lemma find_append:
  "find P (xs @ ys) = (case find P xs of None \<Rightarrow> find P ys | Some x \<Rightarrow> Some x)"
  by (induction xs) simp_all

lemma prices_for_snoc:
  "prices_for k (ls @ [(n, p, b)]) = (if n = k then prices_for k ls @ [p] else prices_for k ls)"
  by (simp add: prices_for_def)

lemma best_price_in_set:
  "best_price k ls = Some m \<Longrightarrow> m \<in> set (prices_for k ls)"
  by (auto simp: best_price_def split: if_splits)

lemma best_price_upper:
  "best_price k ls = Some m \<Longrightarrow> q \<in> set (prices_for k ls) \<Longrightarrow> q \<le> m"
  by (auto simp: best_price_def split: if_splits)

lemma best_price_snoc_other:
  "n \<noteq> k \<Longrightarrow> best_price k (ls @ [(n, p, b)]) = best_price k ls"
  by (simp add: best_price_def prices_for_snoc)

lemma best_price_snoc_same:
  "best_price k (ls @ [(k, p, b)])
     = (case best_price k ls of None \<Rightarrow> Some p | Some m \<Rightarrow> Some (max m p))"
  by (auto simp: best_price_def prices_for_snoc max.commute split: option.splits)

lemma first_best_book_Some:
  assumes "best_price k ls = Some m"
  shows "\<exists>l. find (\<lambda>l. fst l = k \<and> Some (fst (snd l)) = best_price k ls) ls = Some l"
proof -
  from best_price_in_set [OF assms] obtain l where "l \<in> set ls" "fst l = k" "fst (snd l) = m"
    by (auto simp: prices_for_def)
  with assms have "\<exists>l\<in>set ls. fst l = k \<and> Some (fst (snd l)) = best_price k ls" by auto
  then have "find (\<lambda>l. fst l = k \<and> Some (fst (snd l)) = best_price k ls) ls \<noteq> None"
    unfolding find_None_iff by blast
  then show ?thesis by blast
qed

lemma best_price_None_iff: "best_price k ls = None \<longleftrightarrow> k \<notin> fst ` set ls"
  by (auto simp: best_price_def prices_for_def filter_empty_conv)

lemma record_listing_best:
  "map_of (fst (record_listing st (n, p, b))) k
     = (if n = k \<and> (map_of (fst st) k = None \<or> the (map_of (fst st) k) < p)
        then Some p else map_of (fst st) k)"
  by (simp add: record_listing_def map_of_dict_set)

lemma record_listing_source:
  "map_of (snd (record_listing st (n, p, b))) k
     = (if n = k \<and> (map_of (fst st) k = None \<or> the (map_of (fst st) k) < p)
        then Some b else map_of (snd st) k)"
  by (simp add: record_listing_def map_of_dict_set)

text \<open>The loop invariant of the selection, over the listings recorded so far.\<close>

lemma record_listing_invariant:
  "map_of (fst (foldl record_listing ([], []) ls)) k = best_price k ls
   \<and> map_of (snd (foldl record_listing ([], []) ls)) k = first_best_book k ls"
proof (induction ls rule: rev_induct)
  case Nil
  show ?case by (simp add: best_price_def prices_for_def first_best_book_def)
next
  case (snoc l ls)
  obtain n p b where l: "l = (n, p, b)" by (cases l)
  let ?st = "foldl record_listing ([], []) ls"
  let ?P = "\<lambda>ls' l. fst l = k \<and> Some (fst (snd l)) = best_price k ls'"
  from snoc have best: "map_of (fst ?st) k = best_price k ls"
    and src: "map_of (snd ?st) k = first_best_book k ls" by simp_all
  have main: "map_of (fst (record_listing ?st (n, p, b))) k = best_price k (ls @ [(n, p, b)])
      \<and> map_of (snd (record_listing ?st (n, p, b))) k = first_best_book k (ls @ [(n, p, b)])"
  proof (cases "n = k")
    case False
    then have bp: "best_price k (ls @ [(n, p, b)]) = best_price k ls"
      by (simp add: best_price_snoc_other)
    have "first_best_book k (ls @ [(n, p, b)]) = first_best_book k ls"
      using False by (simp add: first_best_book_def find_append bp split: option.splits)
    with False bp best src show ?thesis
      by (simp add: record_listing_best record_listing_source)
  next
    case True
    show ?thesis
    proof (cases "best_price k ls")
      case None
      then have "k \<notin> fst ` set ls" by (simp add: best_price_None_iff)
      then have none: "find (?P (ls @ [(n, p, b)])) ls = None"
        unfolding find_None_iff by force
      from None have bp: "best_price k (ls @ [(n, p, b)]) = Some p"
        by (simp add: True best_price_snoc_same)
      have "first_best_book k (ls @ [(n, p, b)]) = Some b"
        using bp True none by (simp add: first_best_book_def find_append)
      with None bp best True show ?thesis
        by (simp add: record_listing_best record_listing_source)
    next
      case (Some m)
      show ?thesis
      proof (cases "m < p")
        case gt: True
        then have bp: "best_price k (ls @ [(n, p, b)]) = Some p"
          by (simp add: True best_price_snoc_same Some)
        have "\<not> ?P (ls @ [(n, p, b)]) l'" if "l' \<in> set ls" for l'
        proof
          assume a: "?P (ls @ [(n, p, b)]) l'"
          with that have "fst (snd l') \<in> set (prices_for k ls)" by (auto simp: prices_for_def)
          from best_price_upper [OF Some this] a bp gt show False by simp
        qed
        then have none: "find (?P (ls @ [(n, p, b)])) ls = None"
          unfolding find_None_iff by blast
        have "first_best_book k (ls @ [(n, p, b)]) = Some b"
          using bp True none by (simp add: first_best_book_def find_append)
        with Some bp best True gt show ?thesis
          by (simp add: record_listing_best record_listing_source)
      next
        case le: False
        then have bp: "best_price k (ls @ [(n, p, b)]) = best_price k ls"
          by (simp add: True best_price_snoc_same Some max_def)
        from first_best_book_Some [OF Some] obtain l' where "find (?P ls) ls = Some l'" ..
        then have "first_best_book k (ls @ [(n, p, b)]) = first_best_book k ls"
          by (simp add: first_best_book_def find_append bp)
        with Some bp best src True le show ?thesis
          by (simp add: record_listing_best record_listing_source)
      qed
    qed
  qed
  show ?case unfolding l using main by simp
qed

section \<open>Invariants of the snapshot\<close>

lemma record_listing_keys:
  assumes "distinct (map fst (fst st))" and "map fst (snd st) = map fst (fst st)"
  shows "distinct (map fst (fst (record_listing st l)))
         \<and> map fst (snd (record_listing st l)) = map fst (fst (record_listing st l))"
proof -
  obtain n p b where l: "l = (n, p, b)" by (cases l)
  from assms show ?thesis
    by (simp add: l record_listing_def keys_dict_set)
qed

lemma foldl_record_listing_keys:
  "distinct (map fst (fst st)) \<Longrightarrow> map fst (snd st) = map fst (fst st) \<Longrightarrow>
   distinct (map fst (fst (foldl record_listing st ls)))
   \<and> map fst (snd (foldl record_listing st ls)) = map fst (fst (foldl record_listing st ls))"
proof (induction ls arbitrary: st)
  case Nil
  then show ?case by simp
next
  case (Cons l ls)
  from record_listing_keys [OF Cons.prems, of l] Cons.IH [of "record_listing st l"]
  show ?case by simp
qed

lemma snapshot_keys:
  "distinct (map fst (fst (best_odds_by_outcome bms wl)))
   \<and> map fst (snd (best_odds_by_outcome bms wl)) = map fst (fst (best_odds_by_outcome bms wl))"
  unfolding best_odds_by_outcome_listings
  by (rule foldl_record_listing_keys) simp_all

lemma snapshot_lookup:
  "map_of (fst (best_odds_by_outcome bms wl)) k = best_price k (qualifying_listings bms wl)"
  "map_of (snd (best_odds_by_outcome bms wl)) k = first_best_book k (qualifying_listings bms wl)"
  unfolding best_odds_by_outcome_listings
  using record_listing_invariant [of "qualifying_listings bms wl" k] by simp_all

lemma in_set_map_filter:
  "y \<in> set (List.map_filter f xs) \<longleftrightarrow> (\<exists>x\<in>set xs. f x = Some y)"
  by (induction xs) (auto split: option.splits)

lemma qualifying_outcome_Some:
  "qualifying_outcome name out = Some (k, p, b) \<Longrightarrow>
     1 < p \<and> b = name \<and> out_name out = Some k \<and> out_price out = Some (Convertible (Finite p))"
  by (auto simp: qualifying_outcome_def split: option.splits raw_price.splits pyfloat.splits if_splits)

lemma qualifying_listing_origin:
  assumes "(k, p, b) \<in> set (qualifying_listings bms wl)"
  shows "1 < p \<and> (\<exists>bm\<in>set bms. \<exists>m\<in>set (bm_markets bm). \<exists>out\<in>set (market_outcomes m).
            allowed wl bm \<and> b = bm_name bm \<and> market_key m = Some ''h2h''
            \<and> out_name out = Some k \<and> out_price out = Some (Convertible (Finite p)))"
proof -
  from assms obtain bm where bm: "bm \<in> set bms" "allowed wl bm"
    and 1: "(k, p, b) \<in> set (listings_of_bookmaker bm)"
    by (auto simp: qualifying_listings_def)
  from 1 obtain m where m: "m \<in> set (bm_markets bm)"
    and 2: "(k, p, b) \<in> set (listings_of_market (bm_name bm) m)"
    by (auto simp: listings_of_bookmaker_def)
  from 2 have key: "market_key m = Some ''h2h''"
    by (auto simp: listings_of_market_def split: if_splits)
  with 2 obtain out where out: "out \<in> set (market_outcomes m)"
    and 3: "qualifying_outcome (bm_name bm) out = Some (k, p, b)"
    by (auto simp: listings_of_market_def in_set_map_filter)
  from qualifying_outcome_Some [OF 3] bm m key out show ?thesis by blast
qed

lemma snapshot_entry_listing:
  assumes "(k, p) \<in> set (fst (best_odds_by_outcome bms wl))"
  shows "\<exists>b. (k, p, b) \<in> set (qualifying_listings bms wl)
            \<and> map_of (snd (best_odds_by_outcome bms wl)) k = Some b"
proof -
  let ?ls = "qualifying_listings bms wl"
  from assms snapshot_keys [of bms wl] have "map_of (fst (best_odds_by_outcome bms wl)) k = Some p"
    by simp
  then have bp: "best_price k ?ls = Some p" by (simp add: snapshot_lookup)
  from first_best_book_Some [OF bp] obtain l
    where f: "find (\<lambda>l. fst l = k \<and> Some (fst (snd l)) = best_price k ?ls) ?ls = Some l" ..
  then have "l \<in> set ?ls" "fst l = k" "Some (fst (snd l)) = best_price k ?ls"
    by (auto simp: find_Some_iff)
  with bp have "(k, p, snd (snd l)) \<in> set ?ls"
    by (cases l) auto
  moreover from f have "first_best_book k ?ls = Some (snd (snd l))"
    by (simp add: first_best_book_def)
  ultimately show ?thesis by (auto simp: snapshot_lookup)
qed

lemma snapshot_prices_gt1:
  "\<forall>v\<in>set (map snd (fst (best_odds_by_outcome bms wl))). 1 < v"
proof
  fix v assume "v \<in> set (map snd (fst (best_odds_by_outcome bms wl)))"
  then obtain k where "(k, v) \<in> set (fst (best_odds_by_outcome bms wl))" by auto
  from snapshot_entry_listing [OF this] obtain b
    where "(k, v, b) \<in> set (qualifying_listings bms wl)" by blast
  from qualifying_listing_origin [OF this] show "1 < v" by simp
qed

lemma snapshot_labels:
  "set (map fst (fst (best_odds_by_outcome bms wl))) = fst ` set (qualifying_listings bms wl)"
proof -
  have "set (map fst (fst (best_odds_by_outcome bms wl)))
          = dom (map_of (fst (best_odds_by_outcome bms wl)))"
    by (simp add: dom_map_of_conv_image_fst)
  also have "\<dots> = fst ` set (qualifying_listings bms wl)"
    by (auto simp: dom_def snapshot_lookup best_price_None_iff)
  finally show ?thesis .
qed

lemma snapshot_length:
  "length (fst (best_odds_by_outcome bms wl)) = card (fst ` set (qualifying_listings bms wl))"
proof -
  have "card (fst ` set (qualifying_listings bms wl))
          = card (set (map fst (fst (best_odds_by_outcome bms wl))))"
    by (simp only: snapshot_labels)
  also have "\<dots> = length (map fst (fst (best_odds_by_outcome bms wl)))"
    using snapshot_keys [of bms wl] by (simp only: distinct_card)
  finally show ?thesis by simp
qed

section \<open>Evaluating the example events\<close>

lemma lower_X: "lower ''X'' = ''x''" by code_simp
lemma lower_Y: "lower ''Y'' = ''y''" by code_simp

lemma h2h_book_name: "bm_name (h2h_book t outs) = lower (if t = [] then [] else t)"
  by (simp add: bm_name_def bm_identifier_def h2h_book_def str_or_def)

lemma best_odds_h2h_book:
  "bookmaker_step {} st (h2h_book t outs) = foldl (outcome_step (bm_name (h2h_book t outs))) st outs"
  by (simp add: bookmaker_step_def market_step_def h2h_book_def)

lemma outcome_step_quote:
  "outcome_step name st (quote label p) =
     (if p \<le> 1 then st
      else if map_of (fst st) label = None \<or> p > the (map_of (fst st) label)
      then (dict_set (fst st) label p, dict_set (snd st) label name) else st)"
  by (simp add: outcome_step_def quote_def py_float_def)

lemma scenario_A_snapshot:
  "best_odds_by_outcome scenario_A {} =
     ([(''A'', 21 / 10), (''B'', 41 / 20)], [(''A'', ''x''), (''B'', ''y'')])"
  by (simp add: scenario_A_def best_odds_by_outcome_def best_odds_h2h_book h2h_book_name
        outcome_step_quote lower_X lower_Y)

section \<open>The edge of a snapshot\<close>

lemma sum_list_dict_values:
  "distinct (map fst d) \<Longrightarrow>
     sum_list (map f (map snd d)) = (\<Sum>k\<in>set (map fst d). f (the (map_of d k)))"
proof (induction d)
  case Nil
  show ?case by simp
next
  case (Cons kv d)
  obtain k v where kv: "kv = (k, v)" by (cases kv)
  from Cons.prems have notin: "k \<notin> set (map fst d)" and dist: "distinct (map fst d)"
    by (simp_all add: kv)
  have "(\<Sum>k'\<in>set (map fst d). f (the (map_of ((k, v) # d) k')))
          = (\<Sum>k'\<in>set (map fst d). f (the (map_of d k')))"
    using notin by (intro sum.cong) auto
  with Cons.IH [OF dist] notin show ?case
    by (simp add: kv)
qed

lemma snapshot_edge:
  "arb_edge (fst (best_odds_by_outcome bms wl))
     = Inr ((1 - sum_list (map (\<lambda>v. 1 / v) (map snd (fst (best_odds_by_outcome bms wl))))) * 100)"
proof (rule arb_edge_nonzero)
  from snapshot_prices_gt1 [of bms wl]
  show "\<forall>v\<in>set (map snd (fst (best_odds_by_outcome bms wl))). v \<noteq> 0" by fastforce
qed

lemma sum_list_update_real:
  "i < length xs \<Longrightarrow> sum_list (xs[i := x]) = sum_list xs + x - (xs ! i :: real)"
  by (induction xs arbitrary: i) (auto split: nat.splits)

lemma inv_le_of_le:
  "(0::real) < p \<Longrightarrow> p \<le> p' \<Longrightarrow> 1 / p' \<le> 1 / p"
  by (simp add: frac_le)

section \<open>The engine in closed form\<close>

lemma find_arbs_for_event_eq:
  "find_arbs_for_event event thr wl =
     (let bms = bookmakers_of event;
          bs = best_odds_by_outcome bms (whitelist_of wl);
          best = fst bs;
          inv_sum = sum_list (map (\<lambda>v. 1 / v) (map snd best));
          edge = (1 - inv_sum) * 100
      in if bms = [] \<or> (length best \<noteq> 2 \<and> length best \<noteq> 3) \<or> float_le edge (min_edge_pct_of thr)
         then Inr []
         else Inr [\<lparr>arb_event_id = ev_id event,
                    arb_sport_title = ev_sport_title event,
                    arb_commence_time = ev_commence_time event,
                    arb_home = ev_home_team event,
                    arb_away = ev_away_team event,
                    arb_best_odds = best,
                    arb_best_books = snd bs,
                    arb_edge_pct = py_round edge 4,
                    arb_stakes_100 =
                      map (\<lambda>(k, v). (k, py_round v 2))
                        (map (\<lambda>(k, v). (k, 100 * (1 / v) / inv_sum)) best)\<rparr>])"
proof -
  let ?best = "fst (best_odds_by_outcome (bookmakers_of event) (whitelist_of wl))"
  have edge: "arb_edge ?best = Inr ((1 - sum_list (map (\<lambda>v. 1 / v) (map snd ?best))) * 100)"
    by (rule snapshot_edge)
  have pos: "\<forall>v\<in>set (map snd ?best). 0 < v"
    using snapshot_prices_gt1 [of "bookmakers_of event" "whitelist_of wl"] by fastforce
  have stakes: "stakes_for_edge ?best 100
      = Inr (map (\<lambda>(k, v). (k, 100 * (1 / v) / sum_list (map (\<lambda>v. 1 / v) (map snd ?best)))) ?best)"
    if "length ?best = 2 \<or> length ?best = 3"
  proof (rule stakes_for_edge_pos [OF _ pos])
    from that show "?best \<noteq> []" by auto
  qed
  show ?thesis
  proof (cases "length ?best = 2 \<or> length ?best = 3")
    case True
    then have len: "\<not> (length ?best \<noteq> 2 \<and> length ?best \<noteq> 3)" by blast
    show ?thesis
      unfolding find_arbs_for_event_def Let_def
      by (simp only: stakes [OF True] edge len if_False sum.case) auto
  next
    case False
    then show ?thesis
      by (simp add: find_arbs_for_event_def Let_def)
  qed
qed




section \<open>Evaluating the further events\<close>

lemma bookmakers_of_event_of: "bookmakers_of (event_of bms) = bms"
  by (simp add: bookmakers_of_def event_of_def)

lemma event_of_fields:
  "ev_id (event_of bms) = Some ''e1''"
  "ev_sport_title (event_of bms) = Some ''Tennis''"
  "ev_commence_time (event_of bms) = None"
  "ev_home_team (event_of bms) = None"
  "ev_away_team (event_of bms) = None"
  by (simp_all add: event_of_def)

lemma scenarios_nonempty:
  "scenario_A \<noteq> []" "scenario_even \<noteq> []" "scenario_near \<noteq> []"
  "scenario_C \<noteq> []" "scenario_four \<noteq> []"
  by (simp_all add: scenario_A_def scenario_even_def scenario_near_def scenario_C_def
        scenario_four_def)

lemma scenario_even_snapshot:
  "best_odds_by_outcome scenario_even {} = ([(''A'', 2), (''B'', 2)], [(''A'', ''x''), (''B'', ''x'')])"
  by (simp add: scenario_even_def best_odds_by_outcome_def best_odds_h2h_book h2h_book_name
        outcome_step_quote lower_X)

lemma scenario_near_snapshot:
  "best_odds_by_outcome scenario_near {}
     = ([(''A'', 2), (''B'', 101 / 50)], [(''A'', ''x''), (''B'', ''x'')])"
  by (simp add: scenario_near_def best_odds_by_outcome_def best_odds_h2h_book h2h_book_name
        outcome_step_quote lower_X)

lemma scenario_C_snapshot:
  "best_odds_by_outcome scenario_C {}
     = ([(''1'', 2), (''X'', 34 / 10), (''2'', 45 / 10)], [(''1'', ''x''), (''X'', ''x''), (''2'', ''x'')])"
  by (simp add: scenario_C_def best_odds_by_outcome_def best_odds_h2h_book h2h_book_name
        outcome_step_quote lower_X)

lemma scenario_four_snapshot:
  "best_odds_by_outcome scenario_four {}
     = ([(''A'', 5), (''B'', 5), (''C'', 5), (''D'', 5)],
        [(''A'', ''x''), (''B'', ''x''), (''C'', ''y''), (''D'', ''y'')])"
  by (simp add: scenario_four_def best_odds_by_outcome_def best_odds_h2h_book h2h_book_name
        outcome_step_quote lower_X lower_Y)

lemma scenario_A_edge:
  "arb_edge (fst (best_odds_by_outcome (bookmakers_of (event_of scenario_A)) (whitelist_of None)))
     = Inr (3100 / 861)"
  by (simp add: bookmakers_of_event_of whitelist_of_def scenario_A_snapshot arb_edge_def py_sum_def)

lemma scenario_C_edge:
  "arb_edge (fst (best_odds_by_outcome (bookmakers_of (event_of scenario_C)) (whitelist_of None)))
     = Inr (- (250 / 153))"
  by (simp add: bookmakers_of_event_of whitelist_of_def scenario_C_snapshot arb_edge_def py_sum_def)

lemma scenario_A_found:
  "find_arbs_for_event (event_of scenario_A) (Some (Finite (1 / 2))) None
     = Inr [\<lparr>arb_event_id = Some ''e1'', arb_sport_title = Some ''Tennis'',
              arb_commence_time = None, arb_home = None, arb_away = None,
              arb_best_odds = [(''A'', 21 / 10), (''B'', 41 / 20)],
              arb_best_books = [(''A'', ''x''), (''B'', ''y'')],
              arb_edge_pct = 7201 / 2000,
              arb_stakes_100 = [(''A'', 247 / 5), (''B'', 253 / 5)]\<rparr>]"
  by (simp add: find_arbs_for_event_eq bookmakers_of_event_of whitelist_of_def
        scenario_A_snapshot min_edge_pct_of_def float_le_def event_of_fields scenarios_nonempty Let_def
        py_round_def round_half_even_def)

section \<open>Skipped listings and the allow-list\<close>

lemma outcome_step_invalid:
  "invalid_price (out_price out) \<Longrightarrow> outcome_step name st out = st"
  by (auto simp: invalid_price_def outcome_step_def py_float_def
           split: option.splits raw_price.splits pyfloat.splits)

lemma listings_h2h_book:
  "listings_of_bookmaker (h2h_book t outs)
     = List.map_filter (qualifying_outcome (bm_name (h2h_book t outs))) outs"
  by (simp add: listings_of_bookmaker_def listings_of_market_def h2h_book_def)

lemma qualifying_outcome_quote:
  "qualifying_outcome name (quote label p) = (if 1 < p then Some (label, p, name) else None)"
  by (simp add: qualifying_outcome_def quote_def)

lemma scenario_tie_listings:
  "qualifying_listings scenario_tie {}
     = [(''A'', 21 / 10, ''x''), (''B'', 19 / 10, ''x''),
        (''A'', 21 / 10, ''y''), (''B'', 41 / 20, ''y'')]"
  by (simp add: qualifying_listings_def scenario_tie_def allowed_def listings_h2h_book
        qualifying_outcome_quote h2h_book_name lower_X lower_Y)

lemma scenario_D_snapshot:
  "best_odds_by_outcome scenario_D {} = ([(''B'', 5 / 2)], [(''B'', ''x'')])"
  by (simp add: scenario_D_def best_odds_by_outcome_def best_odds_h2h_book h2h_book_name
        outcome_step_quote lower_X lower_Y)
     (simp add: outcome_step_def py_float_def)

lemma lower_Pinnacle: "lower ''Pinnacle'' = ''pinnacle''" by code_simp
lemma lower_Bet365: "lower ''Bet365'' = ''bet365''" by code_simp

lemma bookmaker_step_h2h_book:
  "bookmaker_step wl st (h2h_book t outs)
     = (if wl \<noteq> {} \<and> bm_name (h2h_book t outs) \<notin> wl then st
        else foldl (outcome_step (bm_name (h2h_book t outs))) st outs)"
  by (simp add: bookmaker_step_def market_step_def h2h_book_def Let_def)

lemma qualifying_listings_filter:
  assumes "\<And>bm. bm \<in> set bms \<Longrightarrow> P bm = allowed wl bm"
  shows "qualifying_listings bms wl = qualifying_listings (filter P bms) {}"
proof -
  from assms have "filter (allowed wl) bms = filter P bms"
    by (intro filter_cong) simp_all
  then show ?thesis
    by (simp add: qualifying_listings_def allowed_def)
qed

section \<open>Evaluating the rounding\<close>


















section \<open>Properties of the engine\<close>

text \<open>
  C1. For a snapshot of two or three outcomes whose prices are all above 1 and for every
  bankroll, \<^verbatim>\<open>_stakes_for_edge\<close> returns a stake for each outcome of the snapshot such that
  stake times price is the same for all outcomes and the stakes add up to the bankroll
  (in exact arithmetic).
\<close>

theorem stakes_equal_payout:
  assumes "length best = 2 \<or> length best = 3" and "\<forall>v\<in>set (map snd best). 1 < v"
  shows "\<exists>stakes. stakes_for_edge best bankroll = Inr stakes
           \<and> map fst stakes = map fst best
           \<and> (\<forall>i<length best. \<forall>j<length best.
                 snd (stakes ! i) * snd (best ! i) = snd (stakes ! j) * snd (best ! j))
           \<and> sum_list (map snd stakes) = bankroll"
proof -
  from assms(1) have ne: "best \<noteq> []" by auto
  from assms(2) have pos: "\<forall>v\<in>set (map snd best). 0 < v" by fastforce
  from stakes_payout_total [OF ne pos, of bankroll] obtain stakes
    where "stakes_for_edge best bankroll = Inr stakes" "map fst stakes = map fst best"
      and pay: "\<forall>i<length best. snd (stakes ! i) * snd (best ! i)
                  = bankroll / sum_list (map (\<lambda>v. 1 / v) (map snd best))"
      and "sum_list (map snd stakes) = bankroll"
    by blast
  moreover from pay have "\<forall>i<length best. \<forall>j<length best.
      snd (stakes ! i) * snd (best ! i) = snd (stakes ! j) * snd (best ! j)"
    by simp
  ultimately show ?thesis by blast
qed

text \<open>The allocation for Scenario A with a bankroll of 100.\<close>

theorem stakes_equal_payout_witness:
  "fst (best_odds_by_outcome scenario_A {}) = [(''A'', 21 / 10), (''B'', 41 / 20)]
   \<and> (\<exists>stakes. stakes_for_edge [(''A'', 21 / 10), (''B'', 41 / 20)] 100 = Inr stakes
         \<and> map fst stakes = [''A'', ''B'']
         \<and> snd (stakes ! 0) * (21 / 10) = snd (stakes ! 1) * (41 / 20)
         \<and> sum_list (map snd stakes) = 100)"
proof -
  let ?best = "[(''A'', 21 / 10), (''B'', 41 / 20)] :: (string, real) dict"
  have h1: "length ?best = 2 \<or> length ?best = 3" by simp
  have h2: "\<forall>v\<in>set (map snd ?best). 1 < v" by simp
  from stakes_equal_payout [OF h1 h2, of 100] obtain stakes
    where s: "stakes_for_edge ?best 100 = Inr stakes" "map fst stakes = map fst ?best"
      "\<forall>i<length ?best. \<forall>j<length ?best.
          snd (stakes ! i) * snd (?best ! i) = snd (stakes ! j) * snd (?best ! j)"
      "sum_list (map snd stakes) = 100"
    by blast
  from s(3) [rule_format, of 0 1]
  have "snd (stakes ! 0) * (21 / 10) = snd (stakes ! 1) * (41 / 20)" by simp
  with s show ?thesis by (simp add: scenario_A_snapshot)
qed

text \<open>
  C2. The edge that \<^verbatim>\<open>_arb_edge\<close> computes for the snapshot of any list of bookmakers and
  any allow-list is \<open>(1 - S) * 100\<close>, where \<open>S\<close> is the sum of \<open>1 / price\<close> over the outcome
  labels of the snapshot; the division never raises there.
\<close>

theorem arb_edge_formula:
  "(let best = fst (best_odds_by_outcome bms wl)
    in arb_edge best
         = Inr ((1 - (\<Sum>label\<in>set (map fst best). 1 / the (map_of best label))) * 100))"
proof -
  from snapshot_keys [of bms wl]
  have "distinct (map fst (fst (best_odds_by_outcome bms wl)))" by simp
  from sum_list_dict_values [OF this, of "\<lambda>v. 1 / v"] snapshot_edge [of bms wl]
  show ?thesis by (simp only: Let_def)
qed

text \<open>Scenario A: the edge is \<open>(1 - (1 / 2.10 + 1 / 2.05)) * 100\<close>.\<close>

theorem arb_edge_formula_witness:
  "arb_edge (fst (best_odds_by_outcome scenario_A {})) = Inr ((1 - (10 / 21 + 20 / 41)) * 100)"
  using arb_edge_formula [of scenario_A "{}"]
  by (simp add: scenario_A_snapshot Let_def)

text \<open>
  C3. For every list of bookmakers and every allow-list, the snapshot holds for each outcome
  label the maximum price among the qualifying listings of that label (no entry when there
  is none), and the source dictionary holds the bookmaker of the first qualifying listing,
  in iteration order, that quotes this maximum: on a tie the first bookmaker is kept.
\<close>

theorem best_price_first_bookmaker:
  "map_of (fst (best_odds_by_outcome bms wl)) label
     = best_price label (qualifying_listings bms wl)
   \<and> map_of (snd (best_odds_by_outcome bms wl)) label
     = first_best_book label (qualifying_listings bms wl)"
  by (simp add: snapshot_lookup)

text \<open>Both books quote 2.10 for outcome A: the first one, \<open>x\<close>, is kept.\<close>

theorem best_price_first_bookmaker_witness:
  "map_of (fst (best_odds_by_outcome scenario_tie {})) ''A'' = Some (21 / 10)
   \<and> map_of (snd (best_odds_by_outcome scenario_tie {})) ''A'' = Some ''x''
   \<and> map_of (fst (best_odds_by_outcome scenario_tie {})) ''B'' = Some (41 / 20)
   \<and> map_of (snd (best_odds_by_outcome scenario_tie {})) ''B'' = Some ''y''"
proof -
  have a: "best_price ''A'' (qualifying_listings scenario_tie {}) = Some (21 / 10)"
    and b: "best_price ''B'' (qualifying_listings scenario_tie {}) = Some (41 / 20)"
    by (simp_all add: scenario_tie_listings best_price_def prices_for_def)
  have fa: "first_best_book ''A'' (qualifying_listings scenario_tie {}) = Some ''x''"
    unfolding first_best_book_def a by (simp add: scenario_tie_listings)
  have fb: "first_best_book ''B'' (qualifying_listings scenario_tie {}) = Some ''y''"
    unfolding first_best_book_def b by (simp add: scenario_tie_listings)
  from best_price_first_bookmaker [of scenario_tie "{}" "''A''"]
       best_price_first_bookmaker [of scenario_tie "{}" "''B''"] a b fa fb
  show ?thesis by simp
qed

text \<open>
  C4, as stated, fails in two ways. The only test is \<^verbatim>\<open>edge <= min_edge_pct\<close>: with both
  prices at 2.00 (edge exactly 0) and a threshold of -1 an opportunity is returned although
  the edge is not above 0; and with a threshold that is NaN the test is false for every
  edge, so the same event is returned although its edge is not above the threshold.
\<close>

theorem negative_threshold_counterexample:
  "arb_edge (fst (best_odds_by_outcome (bookmakers_of (event_of scenario_even)) (whitelist_of None)))
     = Inr 0
   \<and> find_arbs_for_event (event_of scenario_even) (Some (Finite (- 1))) None
     = Inr [\<lparr>arb_event_id = Some ''e1'', arb_sport_title = Some ''Tennis'',
              arb_commence_time = None, arb_home = None, arb_away = None,
              arb_best_odds = [(''A'', 2), (''B'', 2)],
              arb_best_books = [(''A'', ''x''), (''B'', ''x'')],
              arb_edge_pct = 0,
              arb_stakes_100 = [(''A'', 50), (''B'', 50)]\<rparr>]
   \<and> find_arbs_for_event (event_of scenario_even) (Some NaN) None
     = Inr [\<lparr>arb_event_id = Some ''e1'', arb_sport_title = Some ''Tennis'',
              arb_commence_time = None, arb_home = None, arb_away = None,
              arb_best_odds = [(''A'', 2), (''B'', 2)],
              arb_best_books = [(''A'', ''x''), (''B'', ''x'')],
              arb_edge_pct = 0,
              arb_stakes_100 = [(''A'', 50), (''B'', 50)]\<rparr>]
   \<and> \<not> float_gt 0 NaN"
  by (simp add: find_arbs_for_event_eq bookmakers_of_event_of whitelist_of_def
        scenario_even_snapshot arb_edge_def py_sum_def min_edge_pct_of_def event_of_fields
        scenarios_nonempty Let_def py_round_def round_half_even_def float_le_def float_gt_def)

text \<open>
  C4, amended. The edge of the snapshot is computed without error, and for every event and
  every threshold that is not NaN: an opportunity is returned only when the unrounded edge
  is strictly above the threshold; an edge equal to the threshold gives none; and an edge of
  at most 0 gives none whenever the threshold is at least 0.
\<close>

theorem opportunity_only_above_threshold:
  assumes "min_edge_pct_of thr \<noteq> NaN"
  shows "\<exists>edge. arb_edge (fst (best_odds_by_outcome (bookmakers_of event) (whitelist_of wl))) = Inr edge
      \<and> (find_arbs_for_event event thr wl \<noteq> Inr [] \<longrightarrow> float_gt edge (min_edge_pct_of thr))
      \<and> (min_edge_pct_of thr = Finite edge \<longrightarrow> find_arbs_for_event event thr wl = Inr [])
      \<and> (edge \<le> 0 \<and> float_le 0 (min_edge_pct_of thr)
            \<longrightarrow> find_arbs_for_event event thr wl = Inr [])"
proof -
  let ?edge = "(1 - sum_list (map (\<lambda>v. 1 / v)
      (map snd (fst (best_odds_by_outcome (bookmakers_of event) (whitelist_of wl)))))) * 100"
  from assms have gt: "\<not> float_le ?edge (min_edge_pct_of thr) \<Longrightarrow> float_gt ?edge (min_edge_pct_of thr)"
    by (cases "min_edge_pct_of thr") (simp_all add: float_le_def float_gt_def)
  have eq: "min_edge_pct_of thr = Finite ?edge \<Longrightarrow> float_le ?edge (min_edge_pct_of thr)"
    by (simp add: float_le_def)
  have le: "?edge \<le> 0 \<Longrightarrow> float_le 0 (min_edge_pct_of thr) \<Longrightarrow> float_le ?edge (min_edge_pct_of thr)"
    by (cases "min_edge_pct_of thr") (simp_all add: float_le_def)
  from gt eq le show ?thesis
    unfolding snapshot_edge find_arbs_for_event_eq [of event thr wl] Let_def
    by auto
qed

text \<open>
  Scenario A is reported at a threshold of 0.5 and not at a threshold equal to its edge;
  Scenario C (negative edge) is not reported at threshold 0.
\<close>

theorem opportunity_only_above_threshold_witness:
  "find_arbs_for_event (event_of scenario_A) (Some (Finite (1 / 2))) None \<noteq> Inr []
   \<and> float_gt (3100 / 861) (Finite (1 / 2))
   \<and> find_arbs_for_event (event_of scenario_A) (Some (Finite (3100 / 861))) None = Inr []
   \<and> find_arbs_for_event (event_of scenario_C) (Some (Finite 0)) None = Inr []"
proof -
  have n: "min_edge_pct_of (Some (Finite t)) \<noteq> NaN" for t
    by (simp add: min_edge_pct_of_def)
  have m: "min_edge_pct_of (Some (Finite t)) = Finite t" for t
    by (simp add: min_edge_pct_of_def)
  have 1: "find_arbs_for_event (event_of scenario_A) (Some (Finite (1 / 2))) None \<noteq> Inr []"
    by (simp add: scenario_A_found)
  from opportunity_only_above_threshold
         [where thr = "Some (Finite (1 / 2))" and event = "event_of scenario_A" and wl = None, OF n]
  obtain e where "arb_edge (fst (best_odds_by_outcome (bookmakers_of (event_of scenario_A))
        (whitelist_of None))) = Inr e"
    and "find_arbs_for_event (event_of scenario_A) (Some (Finite (1 / 2))) None \<noteq> Inr []
          \<longrightarrow> float_gt e (min_edge_pct_of (Some (Finite (1 / 2))))"
    by blast
  with 1 have 2: "float_gt (3100 / 861) (Finite (1 / 2))"
    unfolding scenario_A_edge m by blast
  from opportunity_only_above_threshold
         [where thr = "Some (Finite (3100 / 861))" and event = "event_of scenario_A" and wl = None, OF n]
  obtain e where "arb_edge (fst (best_odds_by_outcome (bookmakers_of (event_of scenario_A))
        (whitelist_of None))) = Inr e"
    and "min_edge_pct_of (Some (Finite (3100 / 861))) = Finite e
          \<longrightarrow> find_arbs_for_event (event_of scenario_A) (Some (Finite (3100 / 861))) None = Inr []"
    by blast
  then have 3: "find_arbs_for_event (event_of scenario_A) (Some (Finite (3100 / 861))) None = Inr []"
    unfolding scenario_A_edge m by blast
  from opportunity_only_above_threshold
         [where thr = "Some (Finite 0)" and event = "event_of scenario_C" and wl = None, OF n]
  obtain e where "arb_edge (fst (best_odds_by_outcome (bookmakers_of (event_of scenario_C))
        (whitelist_of None))) = Inr e"
    and "e \<le> 0 \<and> float_le 0 (min_edge_pct_of (Some (Finite 0)))
          \<longrightarrow> find_arbs_for_event (event_of scenario_C) (Some (Finite 0)) None = Inr []"
    by blast
  moreover have "float_le 0 (Finite 0)" "- (250 / 153) \<le> (0::real)"
    by (simp_all add: float_le_def)
  ultimately have 4: "find_arbs_for_event (event_of scenario_C) (Some (Finite 0)) None = Inr []"
    unfolding scenario_C_edge m by blast
  from 1 2 3 4 show ?thesis by blast
qed

text \<open>
  C5. A listing whose price is missing, does not parse, is not finite or is at most 1 leaves
  the two dictionaries as they are; and every price in the snapshot is above 1 and is the
  parsed, finite price of a listing of the input for that label, made by the bookmaker
  recorded as its source.
\<close>

theorem invalid_prices_never_selected:
  "(\<forall>name st out. invalid_price (out_price out) \<longrightarrow> outcome_step name st out = st)
   \<and> (\<forall>label p. (label, p) \<in> set (fst (best_odds_by_outcome bms wl)) \<longrightarrow>
          1 < p
          \<and> (\<exists>bm\<in>set bms. \<exists>m\<in>set (bm_markets bm). \<exists>out\<in>set (market_outcomes m).
                out_name out = Some label
                \<and> out_price out = Some (Convertible (Finite p))
                \<and> \<not> invalid_price (out_price out)
                \<and> map_of (snd (best_odds_by_outcome bms wl)) label = Some (bm_name bm)))"
proof (intro conjI allI impI)
  fix name st and out :: outcome
  assume "invalid_price (out_price out)"
  then show "outcome_step name st out = st" by (rule outcome_step_invalid)
next
  fix label p
  assume "(label, p) \<in> set (fst (best_odds_by_outcome bms wl))"
  from snapshot_entry_listing [OF this] obtain b
    where l: "(label, p, b) \<in> set (qualifying_listings bms wl)"
      and src: "map_of (snd (best_odds_by_outcome bms wl)) label = Some b" by blast
  from qualifying_listing_origin [OF l] show "1 < p" by simp
next
  fix label p
  assume "(label, p) \<in> set (fst (best_odds_by_outcome bms wl))"
  from snapshot_entry_listing [OF this] obtain b
    where l: "(label, p, b) \<in> set (qualifying_listings bms wl)"
      and src: "map_of (snd (best_odds_by_outcome bms wl)) label = Some b" by blast
  from qualifying_listing_origin [OF l] obtain bm m out
    where "bm \<in> set bms" "m \<in> set (bm_markets bm)" "out \<in> set (market_outcomes m)"
      "b = bm_name bm" "out_name out = Some label"
      "out_price out = Some (Convertible (Finite p))" "1 < p"
    by blast
  moreover from this have "\<not> invalid_price (out_price out)"
    by (simp add: invalid_price_def)
  ultimately show "\<exists>bm\<in>set bms. \<exists>m\<in>set (bm_markets bm). \<exists>out\<in>set (market_outcomes m).
      out_name out = Some label \<and> out_price out = Some (Convertible (Finite p))
      \<and> \<not> invalid_price (out_price out)
      \<and> map_of (snd (best_odds_by_outcome bms wl)) label = Some (bm_name bm)"
    using src by blast
qed

text \<open>Scenario D: the price 1.0 for outcome A is skipped, and A is absent from the snapshot.\<close>

theorem invalid_prices_never_selected_witness:
  "best_odds_by_outcome scenario_D {} = ([(''B'', 5 / 2)], [(''B'', ''x'')])
   \<and> outcome_step ''x'' ([], []) (quote ''A'' 1) = ([], [])
   \<and> (1::real) < 5 / 2"
proof -
  note inst = invalid_prices_never_selected [of scenario_D "{}"]
  have "invalid_price (out_price (quote ''A'' 1))"
    by (simp add: invalid_price_def quote_def)
  with inst have 1: "outcome_step ''x'' ([], []) (quote ''A'' 1) = ([], [])" by blast
  have "(''B'', 5 / 2) \<in> set (fst (best_odds_by_outcome scenario_D {}))"
    by (simp add: scenario_D_snapshot)
  with inst have 2: "(1::real) < 5 / 2" by blast
  from 1 2 scenario_D_snapshot show ?thesis by blast
qed

text \<open>
  C6. \<^verbatim>\<open>find_arbs_for_event\<close> never raises and returns a list of at most one opportunity;
  when the qualifying listings of the event cover a number of distinct outcome labels other
  than 2 or 3, the list is empty.
\<close>

theorem find_arbs_zero_or_one:
  "(\<exists>arbs. find_arbs_for_event event thr wl = Inr arbs \<and> length arbs \<le> 1)
   \<and> (card (fst ` set (qualifying_listings (bookmakers_of event) (whitelist_of wl))) \<notin> {2, 3}
        \<longrightarrow> find_arbs_for_event event thr wl = Inr [])"
  by (simp add: find_arbs_for_event_eq [of event thr wl] Let_def snapshot_length)

text \<open>An event with four outcomes at price 5 each (edge 20) gives no opportunity.\<close>

theorem find_arbs_zero_or_one_witness:
  "card (fst ` set (qualifying_listings (bookmakers_of (event_of scenario_four)) (whitelist_of None))) = 4
   \<and> find_arbs_for_event (event_of scenario_four) (Some (Finite (1 / 2))) None = Inr []"
proof -
  have c: "card (fst ` set (qualifying_listings (bookmakers_of (event_of scenario_four)) (whitelist_of None))) = 4"
    by (simp add: snapshot_length [symmetric] bookmakers_of_event_of whitelist_of_def
          scenario_four_snapshot)
  with find_arbs_zero_or_one [of "event_of scenario_four" "Some (Finite (1 / 2))" None]
  show ?thesis by simp
qed

text \<open>
  C7, as stated, fails when an entry of the allow-list has an upper-case letter: only the
  identifier of the bookmaker is lower-cased, the entries are compared as they are. A book
  titled Pinnacle is left out under the allow-list that holds exactly \<open>Pinnacle\<close>, and
  taken under the one that holds \<open>pinnacle\<close>.
\<close>

theorem whitelist_case_counterexample:
  "bm_identifier pinnacle_book = ''Pinnacle''
   \<and> best_odds_by_outcome [pinnacle_book] {''Pinnacle''} = ([], [])
   \<and> best_odds_by_outcome [pinnacle_book] {''pinnacle''}
       = ([(''A'', 21 / 10), (''B'', 41 / 20)], [(''A'', ''pinnacle''), (''B'', ''pinnacle'')])"
  by (simp add: pinnacle_book_def best_odds_by_outcome_def bookmaker_step_h2h_book h2h_book_name
        lower_Pinnacle outcome_step_quote)
     (simp add: bm_identifier_def h2h_book_def str_or_def)

text \<open>
  C7, amended. The selection takes the listings of a bookmaker if and only if the allow-list
  is empty or contains the lower-cased identifier of the bookmaker: the snapshot is the one
  computed, with no allow-list, from exactly those bookmakers. When every entry of the
  allow-list is lower-case, this is membership up to case.
\<close>

theorem whitelist_selection:
  "bookmaker_step wl st bm
     = (if wl = {} \<or> lower (bm_identifier bm) \<in> wl then bookmaker_step {} st bm else st)
   \<and> best_odds_by_outcome bms wl
     = best_odds_by_outcome (filter (\<lambda>bm. wl = {} \<or> lower (bm_identifier bm) \<in> wl) bms) {}
   \<and> ((\<forall>e\<in>wl. lower e = e) \<longrightarrow>
        best_odds_by_outcome bms wl
          = best_odds_by_outcome
              (filter (\<lambda>bm. wl = {} \<or> (\<exists>e\<in>wl. lower e = lower (bm_identifier bm))) bms) {})"
proof (intro conjI impI)
  show "bookmaker_step wl st bm
     = (if wl = {} \<or> lower (bm_identifier bm) \<in> wl then bookmaker_step {} st bm else st)"
    by (simp add: bookmaker_step_def bm_name_def Let_def)
next
  show "best_odds_by_outcome bms wl
     = best_odds_by_outcome (filter (\<lambda>bm. wl = {} \<or> lower (bm_identifier bm) \<in> wl) bms) {}"
    unfolding best_odds_by_outcome_listings
    by (subst qualifying_listings_filter [where P = "\<lambda>bm. wl = {} \<or> lower (bm_identifier bm) \<in> wl"])
       (simp_all add: allowed_def bm_name_def)
next
  assume low: "\<forall>e\<in>wl. lower e = e"
  have "(wl = {} \<or> (\<exists>e\<in>wl. lower e = lower (bm_identifier bm))) = allowed wl bm" for bm
  proof -
    have "(\<exists>e\<in>wl. lower e = lower (bm_identifier bm)) \<longleftrightarrow> lower (bm_identifier bm) \<in> wl"
    proof
      assume "\<exists>e\<in>wl. lower e = lower (bm_identifier bm)"
      then obtain e where "e \<in> wl" "lower e = lower (bm_identifier bm)" by blast
      with low show "lower (bm_identifier bm) \<in> wl" by force
    next
      assume "lower (bm_identifier bm) \<in> wl"
      with low show "\<exists>e\<in>wl. lower e = lower (bm_identifier bm)" by blast
    qed
    then show ?thesis by (simp add: allowed_def bm_name_def)
  qed
  then show "best_odds_by_outcome bms wl
      = best_odds_by_outcome
          (filter (\<lambda>bm. wl = {} \<or> (\<exists>e\<in>wl. lower e = lower (bm_identifier bm))) bms) {}"
    unfolding best_odds_by_outcome_listings
    by (subst qualifying_listings_filter
          [where P = "\<lambda>bm. wl = {} \<or> (\<exists>e\<in>wl. lower e = lower (bm_identifier bm))"])
       simp_all
qed

theorem whitelist_selection_witness:
  "best_odds_by_outcome [other_book, pinnacle_book] {''pinnacle''}
     = best_odds_by_outcome [pinnacle_book] {}
   \<and> best_odds_by_outcome [pinnacle_book] {}
     = ([(''A'', 21 / 10), (''B'', 41 / 20)], [(''A'', ''pinnacle''), (''B'', ''pinnacle'')])
   \<and> best_odds_by_outcome [other_book, pinnacle_book] {}
     = ([(''A'', 5 / 2), (''B'', 5 / 2)], [(''A'', ''bet365''), (''B'', ''bet365'')])"
proof -
  have low: "\<forall>e\<in>{''pinnacle''}. lower e = e"
    using lower_Pinnacle by (simp add: lower_def lower_char_def)
  have ids: "lower (bm_identifier pinnacle_book) = ''pinnacle''"
    "lower (bm_identifier other_book) = ''bet365''"
    using h2h_book_name [of "''Pinnacle''"] h2h_book_name [of "''Bet365''"]
    by (simp_all add: pinnacle_book_def other_book_def bm_name_def lower_Pinnacle lower_Bet365)
  from whitelist_selection [of "{''pinnacle''}" _ _ "[other_book, pinnacle_book]"] low
  have "best_odds_by_outcome [other_book, pinnacle_book] {''pinnacle''}
          = best_odds_by_outcome
              (filter (\<lambda>bm. {''pinnacle''} = ({} :: string set)
                  \<or> (\<exists>e\<in>{''pinnacle''}. lower e = lower (bm_identifier bm)))
                [other_book, pinnacle_book]) {}"
    by blast
  then have 1: "best_odds_by_outcome [other_book, pinnacle_book] {''pinnacle''}
          = best_odds_by_outcome [pinnacle_book] {}"
    using low by (simp add: ids)
  have 2: "best_odds_by_outcome [pinnacle_book] {}
     = ([(''A'', 21 / 10), (''B'', 41 / 20)], [(''A'', ''pinnacle''), (''B'', ''pinnacle'')])"
    by (simp add: pinnacle_book_def best_odds_by_outcome_def bookmaker_step_h2h_book
          h2h_book_name lower_Pinnacle outcome_step_quote)
  have 3: "best_odds_by_outcome [other_book, pinnacle_book] {}
     = ([(''A'', 5 / 2), (''B'', 5 / 2)], [(''A'', ''bet365''), (''B'', ''bet365'')])"
    by (simp add: pinnacle_book_def other_book_def best_odds_by_outcome_def
          bookmaker_step_h2h_book h2h_book_name lower_Pinnacle lower_Bet365 outcome_step_quote)
  from 1 2 3 show ?thesis by blast
qed

text \<open>
  C8. Raising the price of one outcome of a snapshot (prices above 1) and leaving the other
  prices as they are never lowers the edge that \<^verbatim>\<open>_arb_edge\<close> computes.
\<close>

theorem arb_edge_monotone:
  assumes "\<forall>v\<in>set (map snd best). 1 < v" and "i < length best" and "snd (best ! i) \<le> p'"
  shows "\<exists>e e'. arb_edge best = Inr e
             \<and> arb_edge (best[i := (fst (best ! i), p')]) = Inr e' \<and> e \<le> e'"
proof -
  let ?best' = "best[i := (fst (best ! i), p')]"
  let ?inv = "\<lambda>v::real. 1 / v"
  from assms(1,2) have p: "1 < snd (best ! i)" by simp
  with assms(3) have p': "1 < p'" by simp
  have vals: "map snd ?best' = (map snd best)[i := p']"
    by (simp add: map_update)
  from assms(1) have nz: "\<forall>v\<in>set (map snd best). v \<noteq> 0" by fastforce
  have nz': "\<forall>v\<in>set (map snd ?best'). v \<noteq> 0"
  proof
    fix v assume "v \<in> set (map snd ?best')"
    then have "v \<in> insert p' (set (map snd best))"
      unfolding vals using set_update_subset_insert by fast
    with p' nz show "v \<noteq> 0" by auto
  qed
  define ws where "ws = map ?inv (map snd best)"
  from assms(2) have len: "i < length ws" and nth: "ws ! i = 1 / snd (best ! i)"
    by (simp_all add: ws_def)
  have "map ?inv (map snd ?best') = ws[i := 1 / p']"
    unfolding vals ws_def by (simp only: map_update)
  then have eq: "sum_list (map ?inv (map snd ?best')) = sum_list ws + 1 / p' - 1 / snd (best ! i)"
    using sum_list_update_real [OF len, of "1 / p'"] by (simp only: nth)
  from p assms(3) have le: "1 / p' \<le> 1 / snd (best ! i)"
    by (intro inv_le_of_le) simp_all
  from eq le have "sum_list (map ?inv (map snd ?best')) \<le> sum_list ws" by linarith
  then have "sum_list (map ?inv (map snd ?best')) \<le> sum_list (map ?inv (map snd best))"
    by (simp only: ws_def)
  then have "(1 - sum_list (map ?inv (map snd best))) * 100
               \<le> (1 - sum_list (map ?inv (map snd ?best'))) * 100"
    by simp
  with arb_edge_nonzero [OF nz] arb_edge_nonzero [OF nz'] show ?thesis by blast
qed

text \<open>Scenario A with the price of the first outcome raised from 2.10 to 2.20.\<close>

theorem arb_edge_monotone_witness:
  "arb_edge [(''A'', 21 / 10), (''B'', 41 / 20)] = Inr (3100 / 861)
   \<and> arb_edge [(''A'', 22 / 10), (''B'', 41 / 20)] = Inr (2600 / 451)
   \<and> (3100 / 861 :: real) \<le> 2600 / 451"
proof -
  let ?best = "[(''A'', 21 / 10), (''B'', 41 / 20)] :: (string, real) dict"
  have h1: "\<forall>v\<in>set (map snd ?best). 1 < v" by simp
  have h2: "0 < length ?best" by simp
  have h3: "snd (?best ! 0) \<le> 22 / 10" by simp
  from arb_edge_monotone [OF h1 h2 h3] obtain e e'
    where "arb_edge ?best = Inr e" "arb_edge (?best[0 := (fst (?best ! 0), 22 / 10)]) = Inr e'"
      "e \<le> e'" by blast
  then show ?thesis by (simp add: arb_edge_def py_sum_def)
qed

text \<open>
  C9, as stated, fails for the engine: called without a threshold it uses the default of its
  signature, 0.25, and reports an event whose edge is about 0.495, which a threshold of 0.5
  rejects.
\<close>

theorem default_threshold_counterexample:
  "find_arbs_for_event (event_of scenario_near) None None
     = Inr [\<lparr>arb_event_id = Some ''e1'', arb_sport_title = Some ''Tennis'',
              arb_commence_time = None, arb_home = None, arb_away = None,
              arb_best_odds = [(''A'', 2), (''B'', 101 / 50)],
              arb_best_books = [(''A'', ''x''), (''B'', ''x'')],
              arb_edge_pct = 99 / 200,
              arb_stakes_100 = [(''A'', 201 / 4), (''B'', 199 / 4)]\<rparr>]
   \<and> find_arbs_for_event (event_of scenario_near) (Some (Finite (5 / 10))) None = Inr []"
  by (simp add: find_arbs_for_event_eq bookmakers_of_event_of whitelist_of_def
        scenario_near_snapshot min_edge_pct_of_def float_le_def event_of_fields scenarios_nonempty Let_def
        py_round_def round_half_even_def)

text \<open>
  C9, amended. The engine called without a threshold behaves as with the threshold 0.25; the
  driver, when \<^verbatim>\<open>MIN_EDGE_PCT\<close> is not set, calls the engine with the threshold 0.5.
\<close>

theorem default_threshold:
  "find_arbs_for_event event None wl = find_arbs_for_event event (Some (Finite (25 / 100))) wl
   \<and> scan_event None whitelist event = find_arbs_for_event event (Some (Finite (5 / 10))) (Some whitelist)"
  by (simp add: find_arbs_for_event_def min_edge_pct_of_def scan_event_def MIN_EDGE_PCT_def)

theorem default_threshold_witness:
  "find_arbs_for_event (event_of scenario_near) None None
     = find_arbs_for_event (event_of scenario_near) (Some (Finite (25 / 100))) None
   \<and> scan_event None {} (event_of scenario_near) = Inr []"
proof -
  have "find_arbs_for_event (event_of scenario_near) (Some (Finite (5 / 10))) (Some {}) = Inr []"
    by (simp add: find_arbs_for_event_eq bookmakers_of_event_of whitelist_of_def
          scenario_near_snapshot min_edge_pct_of_def float_le_def Let_def)
  with default_threshold [of "event_of scenario_near" None "{}"] show ?thesis by simp
qed




end
